theory Spec2Isabelle
  imports Main "HOL-Library.Char_ord" "HOL-Library.List_Lexorder"
begin

section \<open>Error codes (local_storage/error.go, sender/error.go)\<close>

text \<open>
  The constants of \<^verbatim>\<open>error_code\<close>, in the order of the \<^verbatim>\<open>iota\<close> block. A Go
  \<^verbatim>\<open>error\<close> return is an \<open>error_code option\<close>: \<open>None\<close> is \<^verbatim>\<open>nil\<close>.
\<close>

datatype error_code =
  ErrStoreLockFailed
  | ErrDuplicatedStore
  | ErrStoreFailed
  | ErrGetLockFailed
  | ErrGetFailed
  | ErrGetEmpty
  | ErrRemoveFailed
  | ErrTimedOut
  | ErrStoreClosed

datatype sender_error = ErrInvalidInput | ErrSendFailed

section \<open>The file system and the advisory locks\<close>

text \<open>
  A Go \<^verbatim>\<open>[]byte\<close> and a Go \<^verbatim>\<open>string\<close> are both byte sequences; an Isabelle
  \<open>char\<close> is one byte, so both are \<open>char list\<close>.
\<close>

type_synonym bytes = string

text \<open>
  The model holds the content of the storage directory \<^verbatim>\<open>f.dir\<close>: its entries, keyed by
  base name, in the order \<^verbatim>\<open>filepath.WalkDir\<close> visits them (lexical order of the names),
  and the content of \<^verbatim>\<open>f.lock_dir\<close>: the lock files, keyed by the same base names.
  A \<^verbatim>\<open>*flock.Flock\<close> is an object of its own: \<^verbatim>\<open>Unlock\<close> only releases the lock that
  this very object took. So every successful \<^verbatim>\<open>TryLock\<close> gets a fresh identity, and
  \<open>held\<close> records which object holds the lock of which lock file.
\<close>

datatype node = RegFile bytes | SubDir

record flock =
  lpath :: string
  fid :: nat

record fsys =
  entries :: "(string \<times> node) list"
  lock_files :: "string list"
  held :: "(string \<times> nat) list"
  next_flock :: nat

text \<open>
  What the platform does on a call is a parameter: the hash function of \<^verbatim>\<open>crypto/sha256\<close>,
  and for every system call whether it fails. \<open>root\<close> says what \<^verbatim>\<open>WalkDir\<close> finds at
  the storage directory itself: \<^verbatim>\<open>Lstat\<close> fails (\<open>RootMissing\<close>), \<^verbatim>\<open>ReadDir\<close> fails
  (\<open>RootUnreadable\<close>), or the directory can be listed. A failed \<^verbatim>\<open>os.WriteFile\<close> may
  have created nothing (\<open>NoFile\<close>) or left a file holding a prefix of the data.
\<close>

datatype root_status = RootOk | RootUnreadable | RootMissing

datatype wfault = NoFile | Partial nat

record env =
  Sum256 :: "bytes \<Rightarrow> bytes"
  lock_fails :: "string \<Rightarrow> bool"
  stat_fails :: "string \<Rightarrow> bool"
  write_fault :: "string \<Rightarrow> wfault option"
  read_fails :: "string \<Rightarrow> bool"
  remove_fails :: "string \<Rightarrow> bool"
  lock_remove_fails :: "string \<Rightarrow> bool"
  removeall_fails :: bool
  mkdirall_fails :: bool
  root :: root_status

subsection \<open>encoding/hex\<close>

definition hextable :: string where
  "hextable = ''0123456789abcdef''"

fun EncodeToString :: "bytes \<Rightarrow> string" where
  "EncodeToString [] = []"
| "EncodeToString (v # src) =
     hextable ! (of_char v div 16) # hextable ! (of_char v mod 16) # EncodeToString src"

subsection \<open>go-flock\<close>

datatype trylock = LockErr | NotLocked | Locked flock

text \<open>
  \<^verbatim>\<open>flock.New(path).TryLock()\<close>: opens the lock file, creating it, and asks for the
  exclusive lock without blocking. An error is \<open>LockErr\<close>; a lock that another object
  holds is \<open>NotLocked\<close> (\<^verbatim>\<open>false, nil\<close>).
\<close>

definition TryLock :: "env \<Rightarrow> string \<Rightarrow> fsys \<Rightarrow> trylock \<times> fsys" where
  "TryLock e name fs =
     (if lock_fails e name then (LockErr, fs)
      else if name \<in> fst ` set (held fs)
        then (NotLocked, fs\<lparr>lock_files := List.insert name (lock_files fs)\<rparr>)
      else (Locked \<lparr>lpath = name, fid = next_flock fs\<rparr>,
            fs\<lparr>lock_files := List.insert name (lock_files fs),
               held := (name, next_flock fs) # held fs,
               next_flock := Suc (next_flock fs)\<rparr>))"

text \<open>\<^verbatim>\<open>Unlock\<close> releases the lock this object holds, if any; the lock file stays.\<close>

definition Unlock :: "flock \<Rightarrow> fsys \<Rightarrow> fsys" where
  "Unlock l fs = fs\<lparr>held := filter (\<lambda>h. h \<noteq> (lpath l, fid l)) (held fs)\<rparr>"

subsection \<open>os\<close>

definition put_file :: "string \<Rightarrow> bytes \<Rightarrow> (string \<times> node) list \<Rightarrow> (string \<times> node) list" where
  "put_file name content es =
     (if name \<in> fst ` set es
      then map (\<lambda>(n, x). if n = name then (n, RegFile content) else (n, x)) es
      else insort_key fst (name, RegFile content) es)"

text \<open>\<^verbatim>\<open>os.WriteFile(file, data, 0600)\<close>; \<open>True\<close> is a \<^verbatim>\<open>nil\<close> error.\<close>

definition WriteFile :: "env \<Rightarrow> string \<Rightarrow> bytes \<Rightarrow> fsys \<Rightarrow> bool \<times> fsys" where
  "WriteFile e name content fs =
     (case map_of (entries fs) name of
        Some SubDir \<Rightarrow> (False, fs)
      | _ \<Rightarrow>
        (case write_fault e name of
           None \<Rightarrow> (True, fs\<lparr>entries := put_file name content (entries fs)\<rparr>)
         | Some NoFile \<Rightarrow> (False, fs)
         | Some (Partial k) \<Rightarrow>
             (False, fs\<lparr>entries := put_file name (take k content) (entries fs)\<rparr>)))"

text \<open>
  \<^verbatim>\<open>os.Stat(file)\<close> as \<^verbatim>\<open>Store\<close> reads it: \<open>True\<close> when the error is
  \<^verbatim>\<open>fs.ErrNotExist\<close>, \<open>False\<close> when the file is there or the call fails otherwise.
\<close>

definition stat_not_exist :: "env \<Rightarrow> string \<Rightarrow> fsys \<Rightarrow> bool" where
  "stat_not_exist e name fs \<longleftrightarrow> \<not> stat_fails e name \<and> name \<notin> fst ` set (entries fs)"

section \<open>The notifier\<close>

text \<open>
  \<^verbatim>\<open>queued\<close> is a Go \<^verbatim>\<open>int\<close> (64 bits); it counts files of one directory and is
  modelled as an unbounded integer. \<open>timer\<close> is \<open>None\<close> for the \<^verbatim>\<open>nil\<close> pointer.
  The mutex of \<^verbatim>\<open>cond\<close> makes every critical section one step of the model; what is
  left of \<^verbatim>\<open>cond\<close> is the number of \<^verbatim>\<open>Signal()\<close> calls made so far, \<open>signals\<close>.
\<close>

datatype timer_state = Running | Stopped

record notifier =
  timer :: "timer_state option"
  queued :: int
  run :: bool
  forceWake :: bool
  signals :: nat

definition Signal :: "notifier \<Rightarrow> notifier" where
  "Signal n = n\<lparr>signals := Suc (signals n)\<rparr>"

text \<open>
  The paths \<^verbatim>\<open>dir\<close> and \<^verbatim>\<open>lock_dir\<close> of an \<^verbatim>\<open>fsStore\<close> never change; what the
  store's methods reach through them is \<open>disk\<close>. An \<^verbatim>\<open>fsData\<close> points to the
  notifier of its store: its methods take the store, and \<open>file_path\<close> is the base name.
\<close>

record fsStore =
  wait :: notifier
  disk :: fsys

record fsData =
  data :: bytes
  file_path :: string
  lock :: flock

section \<open>fsStore.Store\<close>

definition time_format :: string where
  "time_format = ''2006-01-02-15-04-05-''"

text \<open>
  \<open>now\<close> is \<^verbatim>\<open>time.Now().Format(time_format)\<close>, the clock already rendered. The deferred
  \<^verbatim>\<open>lock.Unlock()\<close> runs on every return after the lock was taken.
\<close>

definition store_filename :: "env \<Rightarrow> string \<Rightarrow> bytes \<Rightarrow> string" where
  "store_filename e now content = now @ EncodeToString (Sum256 e content)"

definition Store :: "env \<Rightarrow> string \<Rightarrow> bytes \<Rightarrow> fsStore \<Rightarrow> error_code option \<times> fsStore" where
  "Store e now content f =
     (let filename = store_filename e now content in
      case TryLock e filename (disk f) of
        (LockErr, fs) \<Rightarrow> (Some ErrStoreLockFailed, f\<lparr>disk := fs\<rparr>)
      | (NotLocked, fs) \<Rightarrow> (Some ErrDuplicatedStore, f\<lparr>disk := fs\<rparr>)
      | (Locked l, fs1) \<Rightarrow>
          if \<not> stat_not_exist e filename fs1
          then (Some ErrDuplicatedStore, f\<lparr>disk := Unlock l fs1\<rparr>)
          else
            (case WriteFile e filename content fs1 of
               (False, fs2) \<Rightarrow> (Some ErrStoreFailed, f\<lparr>disk := Unlock l fs2\<rparr>)
             | (True, fs2) \<Rightarrow>
                 (None, f\<lparr>wait := Signal ((wait f)\<lparr>queued := queued (wait f) + 1\<rparr>),
                          disk := Unlock l fs2\<rparr>)))"

section \<open>fsStore.Get\<close>

datatype walk_ret = WalkNil | WalkSkipDir | WalkErr error_code

text \<open>
  The closure \<^verbatim>\<open>walk\<close> on a regular file: its return value, the \<^verbatim>\<open>data\<close> it may
  have assigned, and the file system. The deferred function unlocks unless the return
  value is \<^verbatim>\<open>fs.SkipDir\<close>.
\<close>

definition walk :: "env \<Rightarrow> string \<Rightarrow> bytes \<Rightarrow> fsys \<Rightarrow> walk_ret \<times> fsData option \<times> fsys" where
  "walk e filename file_data fs =
     (case TryLock e filename fs of
        (LockErr, fs1) \<Rightarrow> (WalkErr ErrGetLockFailed, None, fs1)
      | (NotLocked, fs1) \<Rightarrow> (WalkNil, None, fs1)
      | (Locked l, fs1) \<Rightarrow>
          if length filename < length time_format then (WalkNil, None, Unlock l fs1)
          else if read_fails e filename then (WalkNil, None, Unlock l fs1)
          else if EncodeToString (Sum256 e file_data) \<noteq> drop (length time_format) filename
            then (WalkNil, None, Unlock l fs1)
          else (WalkSkipDir,
                Some \<lparr>data = file_data, file_path = filename, lock = l\<rparr>, fs1))"

text \<open>
  The loop of \<^verbatim>\<open>filepath.WalkDir\<close> over the entries of the root: a directory makes
  \<^verbatim>\<open>walk\<close> return \<^verbatim>\<open>fs.SkipDir\<close> and is skipped; on a file, \<^verbatim>\<open>nil\<close> goes on,
  \<^verbatim>\<open>fs.SkipDir\<close> ends the walk with no error, any other error ends it with that error.
\<close>

fun walkDir :: "env \<Rightarrow> (string \<times> node) list \<Rightarrow> fsys \<Rightarrow> error_code option \<times> fsData option \<times> fsys" where
  "walkDir e [] fs = (None, None, fs)"
| "walkDir e ((name, SubDir) # es) fs = walkDir e es fs"
| "walkDir e ((name, RegFile c) # es) fs =
     (case walk e name c fs of
        (WalkNil, d, fs1) \<Rightarrow> walkDir e es fs1
      | (WalkSkipDir, d, fs1) \<Rightarrow> (None, d, fs1)
      | (WalkErr err, d, fs1) \<Rightarrow> (Some err, None, fs1))"

datatype get_result = GetPanic | GetErr error_code | GetData fsData

text \<open>
  When \<^verbatim>\<open>Lstat\<close> of the root fails, \<^verbatim>\<open>WalkDir\<close> calls \<^verbatim>\<open>walk\<close> with a \<^verbatim>\<open>nil\<close>
  entry, and \<^verbatim>\<open>d.IsDir()\<close> panics. When \<^verbatim>\<open>ReadDir\<close> fails, \<^verbatim>\<open>walk\<close> is called with
  the error and returns it.
\<close>

definition Get :: "env \<Rightarrow> fsStore \<Rightarrow> get_result \<times> fsStore" where
  "Get e f =
     (case root e of
        RootMissing \<Rightarrow> (GetPanic, f)
      | RootUnreadable \<Rightarrow> (GetErr ErrGetFailed, f)
      | RootOk \<Rightarrow>
          (case walkDir e (entries (disk f)) (disk f) of
             (Some err, d, fs) \<Rightarrow> (GetErr ErrGetFailed, f\<lparr>disk := fs\<rparr>)
           | (None, None, fs) \<Rightarrow> (GetErr ErrGetEmpty, f\<lparr>disk := fs\<rparr>)
           | (None, Some d, fs) \<Rightarrow> (GetData d, f\<lparr>disk := fs\<rparr>)))"

section \<open>fsStore.Wait and fsStore.Close, the timer\<close>

text \<open>
  The loop of \<^verbatim>\<open>Wait\<close>. Each \<^verbatim>\<open>n.cond.Wait()\<close> parks the caller until a signal; when it
  runs again the other goroutines have changed the notifier. The list gives, for each
  wake-up still to come, what happened to the notifier in between. \<open>None\<close>: the caller
  is still parked after the last of them.
\<close>

fun Wait_loop :: "notifier \<Rightarrow> (notifier \<Rightarrow> notifier) list \<Rightarrow> notifier option" where
  "Wait_loop n [] = (if queued n = 0 \<and> run n \<and> \<not> forceWake n then None else Some n)"
| "Wait_loop n (w # ws) =
     (if queued n = 0 \<and> run n \<and> \<not> forceWake n then Wait_loop (w n) ws else Some n)"

definition Wait :: "(notifier \<Rightarrow> notifier) list \<Rightarrow> fsStore \<Rightarrow> (error_code option \<times> fsStore) option" where
  "Wait ws f =
     (case Wait_loop (wait f) ws of
        None \<Rightarrow> None
      | Some n \<Rightarrow>
          Some (if forceWake n then (Some ErrTimedOut, f\<lparr>wait := n\<lparr>forceWake := False\<rparr>\<rparr>)
                else if \<not> run n then (Some ErrStoreClosed, f\<lparr>wait := n\<rparr>)
                else (None, f\<lparr>wait := n\<rparr>)))"

definition Close_notifier :: "notifier \<Rightarrow> notifier" where
  "Close_notifier n =
     Signal (n\<lparr>run := False,
               timer := (case timer n of None \<Rightarrow> None | Some t \<Rightarrow> Some Stopped)\<rparr>)"

definition Close :: "fsStore \<Rightarrow> error_code option \<times> fsStore" where
  "Close f = (None, f\<lparr>wait := Close_notifier (wait f)\<rparr>)"

text \<open>
  One round of the goroutine that \<^verbatim>\<open>NewFS\<close> starts: the timer fires, then the critical
  section and the signal. \<open>None\<close>: there is no running timer to fire.
\<close>

definition timer_fired :: "notifier \<Rightarrow> notifier option" where
  "timer_fired n =
     (if timer n = Some Running
      then Some (Signal (if queued n = 0 then n\<lparr>forceWake := True\<rparr> else n))
      else None)"

section \<open>fsData\<close>

definition Bytes :: "fsData \<Rightarrow> bytes" where
  "Bytes fd = [] @ data fd"

text \<open>
  \<^verbatim>\<open>os.Remove\<close> of the data file fails when the call fails or nothing has that name.
  Once the lock file is deleted, a lock still held on it by another object no longer
  stands in the way of a \<^verbatim>\<open>TryLock\<close> on that path.
\<close>

definition Remove :: "env \<Rightarrow> fsData \<Rightarrow> fsStore \<Rightarrow> error_code option \<times> fsStore" where
  "Remove e fd f =
     (if remove_fails e (file_path fd) \<or> file_path fd \<notin> fst ` set (entries (disk f))
      then (Some ErrRemoveFailed, f)
      else
        (let fs1 = (disk f)\<lparr>entries := filter (\<lambda>(n, x). n \<noteq> file_path fd) (entries (disk f))\<rparr>;
             fs2 = Unlock (lock fd) fs1;
             fs3 = (if lock_remove_fails e (lpath (lock fd)) \<or> lpath (lock fd) \<notin> set (lock_files fs2)
                    then fs2
                    else fs2\<lparr>lock_files := removeAll (lpath (lock fd)) (lock_files fs2),
                             held := filter (\<lambda>h. fst h \<noteq> lpath (lock fd)) (held fs2)\<rparr>)
         in (None, f\<lparr>wait := (if queued (wait f) > 0
                                then (wait f)\<lparr>queued := queued (wait f) - 1\<rparr>
                                else wait f),
                      disk := fs3\<rparr>)))"

definition fsData_Close :: "fsData \<Rightarrow> fsStore \<Rightarrow> error_code option \<times> fsStore" where
  "fsData_Close fd f = (None, f\<lparr>disk := Unlock (lock fd) (disk f)\<rparr>)"

section \<open>NewFS\<close>

text \<open>The counting walk of \<^verbatim>\<open>NewFS\<close>: every entry that is not a directory counts.\<close>

fun count_walk :: "(string \<times> node) list \<Rightarrow> int \<Rightarrow> int" where
  "count_walk [] q = q"
| "count_walk ((name, SubDir) # es) q = count_walk es q"
| "count_walk ((name, RegFile c) # es) q = count_walk es (q + 1)"

text \<open>
  \<open>None\<close> is a panic. \<^verbatim>\<open>os.RemoveAll(lock_dir)\<close> removes whatever is called
  \<^verbatim>\<open>.lock\<close> in the storage directory, with the lock files and so the locks held on
  them; \<^verbatim>\<open>os.MkdirAll\<close> creates the directory again.
\<close>

definition NewFS :: "env \<Rightarrow> int \<Rightarrow> fsys \<Rightarrow> fsStore option" where
  "NewFS e timeout fs =
     (if removeall_fails e then None
      else if mkdirall_fails e then None
      else
        (let fs1 = fs\<lparr>entries := insort_key fst (''.lock'', SubDir)
                                   (filter (\<lambda>(n, x). n \<noteq> ''.lock'') (entries fs)),
                      lock_files := [], held := []\<rparr>
         in case root e of
              RootMissing \<Rightarrow> None
            | RootUnreadable \<Rightarrow> None
            | RootOk \<Rightarrow>
                Some \<lparr>wait = \<lparr>timer = (if timeout \<noteq> 0 then Some Running else None),
                              queued = count_walk (entries fs1) 0,
                              run = True, forceWake = False, signals = 0\<rparr>,
                      disk = fs1\<rparr>))"

section \<open>Count\<close>

text \<open>
  Modelled from the spec: \<^verbatim>\<open>Count()\<close> is called by the tests and by the HTTP handler
  \<^verbatim>\<open>GetMessage\<close>, but the storage package at hand declares no such method. The spec:
  "\<^verbatim>\<open>Count() -> integer\<close>: returns current \<^verbatim>\<open>pendingCount\<close> under the shared lock."
  The counter is \<open>queued\<close>; taking and releasing the mutex leaves the store as it was.
\<close>

definition Count :: "fsStore \<Rightarrow> int \<times> fsStore" where
  "Count f = (queued (wait f), f)"

section \<open>The relay loop (main.go, startStorage)\<close>

text \<open>
  One pass through the body of the \<^verbatim>\<open>for\<close> loop of the goroutine. \<open>Send\<close> is the
  sender, \<open>ws\<close> the wake-ups of this pass's \<^verbatim>\<open>Wait\<close>. The result says how the
  pass ended, which methods of the retrieved \<^verbatim>\<open>Data\<close> it called, in order, and the
  store afterwards.
\<close>

datatype handle_call = CallRemove | CallClose

datatype loop_ctl = LoopReturn | LoopAgain | LoopParked | LoopPanic

definition relay_iteration ::
  "env \<Rightarrow> (string \<Rightarrow> sender_error option) \<Rightarrow> (notifier \<Rightarrow> notifier) list \<Rightarrow> fsStore
     \<Rightarrow> loop_ctl \<times> handle_call list \<times> fsStore" where
  "relay_iteration e Send ws store =
     (case Wait ws store of
        None \<Rightarrow> (LoopParked, [], store)
      | Some (err, s1) \<Rightarrow>
          if err = Some ErrStoreClosed then (LoopReturn, [], s1)
          else if err \<noteq> None \<and> err \<noteq> Some ErrTimedOut then (LoopAgain, [], s1)
          else
            (case Get e s1 of
               (GetPanic, s2) \<Rightarrow> (LoopPanic, [], s2)
             | (GetErr gerr, s2) \<Rightarrow> (LoopAgain, [], s2)
             | (GetData d, s2) \<Rightarrow>
                 (case Send (Bytes d) of
                    Some serr \<Rightarrow> (LoopAgain, [CallClose], snd (fsData_Close d s2))
                  | None \<Rightarrow>
                      (case Remove e d s2 of
                         (Some rerr, s3) \<Rightarrow>
                           (LoopAgain, [CallRemove, CallClose], snd (fsData_Close d s3))
                       | (None, s3) \<Rightarrow> (LoopAgain, [CallRemove], s3)))))"

section \<open>Clients of the store\<close>

text \<open>
  The receiving loop of \<^verbatim>\<open>TestPrepopulated\<close>, without its \<^verbatim>\<open>Wait\<close> calls (they touch
  the notifier only): \<open>k\<close> rounds of \<^verbatim>\<open>Get\<close>, then \<^verbatim>\<open>Bytes\<close> and \<^verbatim>\<open>Remove\<close>, a
  failed \<^verbatim>\<open>Get\<close> going on with the next round. The result lists the contents received.
\<close>

fun drain :: "env \<Rightarrow> nat \<Rightarrow> fsStore \<Rightarrow> bytes list \<times> fsStore" where
  "drain e 0 f = ([], f)"
| "drain e (Suc k) f =
     (case Get e f of
        (GetData d, f1) \<Rightarrow>
          (case drain e k (snd (Remove e d f1)) of (bs, f3) \<Rightarrow> (Bytes d # bs, f3))
      | (r, f1) \<Rightarrow> drain e k f1)"

text \<open>The contents of the regular files of a directory, in its order.\<close>

fun payloads :: "(string \<times> node) list \<Rightarrow> bytes list" where
  "payloads [] = []"
| "payloads ((name, SubDir) # es) = payloads es"
| "payloads ((name, RegFile c) # es) = c # payloads es"

text \<open>The first regular file of a directory listing, with its content.\<close>

fun first_file :: "(string \<times> node) list \<Rightarrow> (string \<times> bytes) option" where
  "first_file [] = None"
| "first_file ((name, SubDir) # es) = first_file es"
| "first_file ((name, RegFile c) # es) = Some (name, c)"

text \<open>
  A file as \<^verbatim>\<open>Store\<close> writes it: its name is what \<^verbatim>\<open>Store\<close> builds for its content
  from a timestamp as wide as the layout.
\<close>

definition stored_name :: "env \<Rightarrow> string \<Rightarrow> bytes \<Rightarrow> bool" where
  "stored_name e name c \<longleftrightarrow>
     length time_format \<le> length name \<and>
     name = store_filename e (take (length time_format) name) c"

fun stored_files :: "env \<Rightarrow> (string \<times> node) list \<Rightarrow> bool" where
  "stored_files e [] = True"
| "stored_files e ((name, SubDir) # es) = stored_files e es"
| "stored_files e ((name, RegFile c) # es) = (stored_name e name c \<and> stored_files e es)"

text \<open>
  What a call of \<^verbatim>\<open>NewFS\<close> on the storage directory leaves of it, whether it returns
  or panics: nothing changes when \<^verbatim>\<open>os.RemoveAll\<close> fails; otherwise the lock directory
  is gone with its lock files and the locks held on them, and it is there again, empty,
  unless \<^verbatim>\<open>os.MkdirAll\<close> fails.
\<close>

definition NewFS_disk :: "env \<Rightarrow> fsys \<Rightarrow> fsys" where
  "NewFS_disk e fs =
     (if removeall_fails e then fs
      else if mkdirall_fails e
        then fs\<lparr>entries := filter (\<lambda>(n, x). n \<noteq> ''.lock'') (entries fs),
                lock_files := [], held := []\<rparr>
      else fs\<lparr>entries := insort_key fst (''.lock'', SubDir)
                             (filter (\<lambda>(n, x). n \<noteq> ''.lock'') (entries fs)),
              lock_files := [], held := []\<rparr>)"






section \<open>A platform and a directory for worked examples\<close>

text \<open>
  A platform on which no call fails. Its hash is a stand-in (the identity): the results
  below hold for every hash function, the examples need one that computes.
\<close>

definition quiet_env :: env where
  "quiet_env =
     \<lparr>Sum256 = (\<lambda>d. d), lock_fails = (\<lambda>n. False), stat_fails = (\<lambda>n. False),
      write_fault = (\<lambda>n. None), read_fails = (\<lambda>n. False), remove_fails = (\<lambda>n. False),
      lock_remove_fails = (\<lambda>n. False), removeall_fails = False, mkdirall_fails = False,
      root = RootOk\<rparr>"

definition empty_dir :: fsys where
  "empty_dir = \<lparr>entries = [], lock_files = [], held = [], next_flock = 0\<rparr>"

definition stamp :: string where
  "stamp = ''2022-02-03-04-05-06-''"

text \<open>The store \<^verbatim>\<open>NewFS\<close> builds on the empty directory with a timeout.\<close>

definition fresh :: fsStore where
  "fresh =
     \<lparr>wait = \<lparr>timer = Some Running, queued = 0, run = True, forceWake = False, signals = 0\<rparr>,
      disk = \<lparr>entries = [(''.lock'', SubDir)], lock_files = [], held = [], next_flock = 0\<rparr>\<rparr>"

text \<open>The same store after \<^verbatim>\<open>Store([]byte("hi"))\<close> at \<open>stamp\<close>.\<close>

definition hi_name :: string where
  "hi_name = ''2022-02-03-04-05-06-6869''"

definition one_item :: fsStore where
  "one_item =
     \<lparr>wait = \<lparr>timer = Some Running, queued = 1, run = True, forceWake = False, signals = 1\<rparr>,
      disk = \<lparr>entries = [(''.lock'', SubDir), (hi_name, RegFile ''hi'')],
              lock_files = [hi_name], held = [], next_flock = 1\<rparr>\<rparr>"

text \<open>
  The notifier of \<open>fresh\<close> after one round of the timer while no goroutine waits.
\<close>

definition ticked :: notifier where
  "ticked = \<lparr>timer = Some Running, queued = 0, run = True, forceWake = True, signals = 1\<rparr>"

text \<open>
  The directory of \<open>fresh\<close> while a \<^verbatim>\<open>Store([]byte("hi"))\<close> holds its lock and has
  not written yet.
\<close>

definition writing :: fsys where
  "writing =
     \<lparr>entries = [(''.lock'', SubDir)], lock_files = [hi_name], held = [(hi_name, 0)],
      next_flock = 1\<rparr>"

text \<open>\<open>one_item\<close> after a \<^verbatim>\<open>Get\<close>, and the handle that \<^verbatim>\<open>Get\<close> returns.\<close>

definition claimed :: fsStore where
  "claimed = one_item\<lparr>disk := (disk one_item)\<lparr>held := [(hi_name, 1)], next_flock := 2\<rparr>\<rparr>"

definition hi_data :: fsData where
  "hi_data = \<lparr>data = ''hi'', file_path = hi_name, lock = \<lparr>lpath = hi_name, fid = 1\<rparr>\<rparr>"

text \<open>
  A directory as a store that was not drained leaves it: two items stored at \<open>stamp\<close>,
  a lock file, and a lock that died with the process.
\<close>

definition yo_name :: string where
  "yo_name = ''2022-02-03-04-05-06-796f''"

definition crashed :: fsys where
  "crashed =
     \<lparr>entries = [(''.lock'', SubDir), (hi_name, RegFile ''hi''), (yo_name, RegFile ''yo'')],
      lock_files = [hi_name], held = [(hi_name, 3)], next_flock = 4\<rparr>"




section \<open>The worked examples, evaluated\<close>

lemma quiet_env_sel:
  "Sum256 quiet_env d = d" "lock_fails quiet_env n = False" "stat_fails quiet_env n = False"
  "write_fault quiet_env n = None" "read_fails quiet_env n = False"
  "remove_fails quiet_env n = False" "lock_remove_fails quiet_env n = False"
  "removeall_fails quiet_env = False" "mkdirall_fails quiet_env = False"
  "root quiet_env = RootOk"
  by (simp_all add: quiet_env_def)

lemma hi_filename: "store_filename quiet_env stamp ''hi'' = hi_name"
  by (simp add: store_filename_def quiet_env_sel hextable_def stamp_def hi_name_def)

lemma NewFS_fresh: "NewFS quiet_env 1 empty_dir = Some fresh"
  by (simp add: NewFS_def quiet_env_sel empty_dir_def fresh_def)

lemma Store_fresh: "Store quiet_env stamp ''hi'' fresh = (None, one_item)"
  by (simp add: Store_def Let_def hi_filename TryLock_def fresh_def one_item_def quiet_env_sel
      stat_not_exist_def WriteFile_def put_file_def Unlock_def Signal_def hi_name_def)

lemma timer_fired_fresh: "timer_fired (wait fresh) = Some ticked"
  by (simp add: timer_fired_def fresh_def ticked_def Signal_def)

lemma TryLock_fresh:
  "TryLock quiet_env hi_name (disk fresh) = (Locked \<lparr>lpath = hi_name, fid = 0\<rparr>, writing)"
  by (simp add: TryLock_def quiet_env_sel fresh_def writing_def)

section \<open>What a lock attempt, a walk and a Get change\<close>

lemma filter_other_lock: "name \<notin> fst ` set hs \<Longrightarrow> filter (\<lambda>h. h \<noteq> (name, i)) hs = hs"
  by (induction hs) auto

lemma TryLock_Locked:
  "TryLock e name fs = (Locked l, fs') \<Longrightarrow>
     l = \<lparr>lpath = name, fid = next_flock fs\<rparr> \<and> name \<notin> fst ` set (held fs) \<and>
     held fs' = (name, next_flock fs) # held fs"
  by (auto simp: TryLock_def split: if_splits)

lemma stored_name_iff:
  "stored_name e name c \<longleftrightarrow>
     \<not> length name < length time_format \<and>
     EncodeToString (Sum256 e c) = drop (length time_format) name"
  unfolding stored_name_def store_filename_def
  by (metis append_take_drop_id same_append_eq not_less)

lemma stored_name_filename:
  "length now = length time_format \<Longrightarrow> Sum256 e' = Sum256 e \<Longrightarrow>
     stored_name e' (store_filename e now c) c"
  by (simp add: stored_name_def store_filename_def)

lemma walk_effect:
  assumes "walk e name c fs = (r, dopt, fs')"
  shows "entries fs' = entries fs"
    and "r \<noteq> WalkSkipDir \<Longrightarrow> dopt = None \<and> held fs' = held fs"
    and "r = WalkSkipDir \<Longrightarrow>
           dopt = Some \<lparr>data = c, file_path = name,
                         lock = \<lparr>lpath = name, fid = next_flock fs\<rparr>\<rparr> \<and>
           held fs' = (name, next_flock fs) # held fs \<and> name \<notin> fst ` set (held fs) \<and>
           stored_name e name c"
  using assms
  by (auto simp: walk_def TryLock_def Unlock_def filter_other_lock stored_name_iff
           split: if_splits)

lemma walkDir_effect:
  assumes "walkDir e es fs = (r, dopt, fs')"
  shows "entries fs' = entries fs \<and>
         (case dopt of
            None \<Rightarrow> held fs' = held fs
          | Some d \<Rightarrow> r = None \<and> held fs' = (file_path d, fid (lock d)) # held fs \<and>
              file_path d \<notin> fst ` set (held fs) \<and> lpath (lock d) = file_path d \<and>
              (file_path d, RegFile (data d)) \<in> set es \<and>
              stored_name e (file_path d) (data d))"
  using assms
proof (induction e es fs arbitrary: r dopt fs' rule: walkDir.induct)
  case (1 e fs)
  then show ?case by simp
next
  case (2 e name es fs)
  then show ?case by (auto split: option.splits)
next
  case (3 e name c es fs)
  obtain w d1 fs1 where w: "walk e name c fs = (w, d1, fs1)"
    by (cases "walk e name c fs") auto
  show ?case
  proof (cases w)
    case WalkNil
    with w 3 have "walkDir e es fs1 = (r, dopt, fs')" by simp
    from "3.IH"[OF w[symmetric] WalkNil refl this]
    have ih: "entries fs' = entries fs1 \<and>
         (case dopt of
            None \<Rightarrow> held fs' = held fs1
          | Some d \<Rightarrow> r = None \<and> held fs' = (file_path d, fid (lock d)) # held fs1 \<and>
              file_path d \<notin> fst ` set (held fs1) \<and> lpath (lock d) = file_path d \<and>
              (file_path d, RegFile (data d)) \<in> set es \<and>
              stored_name e (file_path d) (data d))"
      by simp
    from walk_effect(1,2)[OF w] WalkNil
    have "entries fs1 = entries fs" "held fs1 = held fs" by auto
    with ih show ?thesis by (auto split: option.splits)
  next
    case WalkSkipDir
    with w 3 have eq: "r = None" "dopt = d1" "fs' = fs1" by auto
    from walk_effect(1,3)[OF w] WalkSkipDir eq show ?thesis by auto
  next
    case (WalkErr x)
    with w 3 have eq: "r = Some x" "dopt = None" "fs' = fs1" by auto
    from walk_effect(1,2)[OF w] WalkErr eq show ?thesis by auto
  qed
qed

lemma Get_effect:
  assumes "Get e f = (r, f')"
  shows "wait f' = wait f" and "entries (disk f') = entries (disk f)"
    and "\<forall>d. r \<noteq> GetData d \<Longrightarrow> held (disk f') = held (disk f)"
    and "r = GetData d \<Longrightarrow>
           held (disk f') = (file_path d, fid (lock d)) # held (disk f) \<and>
           file_path d \<notin> fst ` set (held (disk f)) \<and> lpath (lock d) = file_path d \<and>
           (file_path d, RegFile (data d)) \<in> set (entries (disk f)) \<and>
           stored_name e (file_path d) (data d)"
proof -
  obtain w dopt fs where w: "walkDir e (entries (disk f)) (disk f) = (w, dopt, fs)"
    by (cases "walkDir e (entries (disk f)) (disk f)") auto
  note eff = walkDir_effect[OF w]
  show "wait f' = wait f" using assms w
    by (auto simp: Get_def split: root_status.splits option.splits)
  show "entries (disk f') = entries (disk f)" using assms w eff
    by (auto simp: Get_def split: root_status.splits option.splits)
  show "\<forall>d. r \<noteq> GetData d \<Longrightarrow> held (disk f') = held (disk f)" using assms w eff
    by (auto simp: Get_def split: root_status.splits option.splits)
  show "r = GetData d \<Longrightarrow>
           held (disk f') = (file_path d, fid (lock d)) # held (disk f) \<and>
           file_path d \<notin> fst ` set (held (disk f)) \<and> lpath (lock d) = file_path d \<and>
           (file_path d, RegFile (data d)) \<in> set (entries (disk f)) \<and>
           stored_name e (file_path d) (data d)" using assms w eff
    by (auto simp: Get_def split: root_status.splits option.splits)
qed

text \<open>
  On a platform that lets it lock and read the first regular file, a walk over a
  directory whose first regular file is unlocked and intact stops there.
\<close>

lemma walkDir_first:
  assumes "first_file es = Some (name, c)" "\<not> lock_fails e name" "\<not> read_fails e name"
    "name \<notin> fst ` set (held fs)" "stored_name e name c"
  shows "walkDir e es fs =
     (None, Some \<lparr>data = c, file_path = name, lock = \<lparr>lpath = name, fid = next_flock fs\<rparr>\<rparr>,
      fs\<lparr>lock_files := List.insert name (lock_files fs),
         held := (name, next_flock fs) # held fs,
         next_flock := Suc (next_flock fs)\<rparr>)"
  using assms
proof (induction es rule: first_file.induct)
  case 1
  then show ?case by simp
next
  case (2 n es)
  then show ?case by simp
next
  case (3 n c' es)
  then show ?case
    by (auto simp: walk_def TryLock_def stored_name_iff)
qed

section \<open>What Store changes\<close>

lemma Store_success_effect:
  assumes "Store e now c f = (None, f1)"
  shows "store_filename e now c \<notin> fst ` set (held (disk f))"
    and "store_filename e now c \<notin> fst ` set (entries (disk f))"
    and "entries (disk f1) =
           insort_key fst (store_filename e now c, RegFile c) (entries (disk f))"
    and "held (disk f1) = held (disk f)"
    and "wait f1 = (wait f)\<lparr>queued := queued (wait f) + 1,
                              signals := Suc (signals (wait f))\<rparr>"
  using assms
  by (auto simp: Store_def Let_def TryLock_def stat_not_exist_def WriteFile_def put_file_def
        Unlock_def filter_other_lock Signal_def
      split: if_splits option.splits wfault.splits node.splits)

lemma first_file_insort:
  "payloads es = [] \<Longrightarrow> first_file (insort_key fst (name, RegFile c) es) = Some (name, c)"
proof (induction es)
  case Nil
  then show ?case by simp
next
  case (Cons a es)
  obtain n x where a: "a = (n, x)" by (cases a)
  with Cons show ?case by (cases x) auto
qed

lemma Store_held_name:
  assumes "name = store_filename e now c" "name \<in> fst ` set (held (disk g))"
    "\<not> lock_fails e name"
  shows "fst (Store e now c g) = Some ErrDuplicatedStore"
    and "wait (snd (Store e now c g)) = wait g"
    and "entries (disk (snd (Store e now c g))) = entries (disk g)"
  using assms by (auto simp: Store_def Let_def TryLock_def)

lemma Store_existing_file:
  assumes "name = store_filename e now c" "name \<in> fst ` set (entries (disk g))"
    "\<not> lock_fails e name"
  shows "fst (Store e now c g) = Some ErrDuplicatedStore"
    and "wait (snd (Store e now c g)) = wait g"
    and "entries (disk (snd (Store e now c g))) = entries (disk g)"
  using assms by (auto simp: Store_def Let_def TryLock_def stat_not_exist_def Unlock_def)

section \<open>What NewFS does to the directory\<close>

lemma NewFS_disk: "NewFS e timeout fs = Some f \<Longrightarrow> disk f = NewFS_disk e fs"
  by (auto simp: NewFS_def NewFS_disk_def Let_def split: if_splits root_status.splits)

lemma NewFS_disk_held: "\<not> removeall_fails e \<Longrightarrow> held (NewFS_disk e fs) = []"
  by (simp add: NewFS_disk_def)

section \<open>Locks held across calls\<close>








section \<open>Draining a directory\<close>

lemma count_walk_payloads: "count_walk es q = q + int (length (payloads es))"
  by (induction es q rule: count_walk.induct) auto

lemma payloads_insort_dir: "payloads (insort_key fst (name, SubDir) es) = payloads es"
proof (induction es)
  case Nil
  then show ?case by simp
next
  case (Cons a es)
  obtain n x where "a = (n, x)" by (cases a)
  with Cons show ?case by (cases x) auto
qed

lemma stored_files_insort_dir:
  "stored_files e (insort_key fst (name, SubDir) es) = stored_files e es"
proof (induction es)
  case Nil
  then show ?case by simp
next
  case (Cons a es)
  obtain n x where "a = (n, x)" by (cases a)
  with Cons show ?case by (cases x) auto
qed

lemma stored_files_filter:
  "stored_files e es \<Longrightarrow> stored_files e (filter (\<lambda>(n, x). n \<noteq> name) es)"
  by (induction e es rule: stored_files.induct) auto

lemma stored_name_not_lock: "stored_name e name c \<Longrightarrow> name \<noteq> ''.lock''"
  by (auto simp: stored_name_def time_format_def)

lemma payloads_filter_lock:
  "stored_files e es \<Longrightarrow> payloads (filter (\<lambda>(n, x). n \<noteq> ''.lock'') es) = payloads es"
  by (induction e es rule: stored_files.induct) (auto dest: stored_name_not_lock)

lemma payloads_filter_absent:
  "name \<notin> fst ` set es \<Longrightarrow> filter (\<lambda>(n, x). n \<noteq> name) es = es"
  by (induction es) auto

lemma first_file_split:
  assumes "first_file es = Some (name, c)" "distinct (map fst es)"
  shows "payloads es = c # payloads (filter (\<lambda>(n, x). n \<noteq> name) es)"
    and "name \<in> fst ` set es"
  using assms
proof (induction es rule: first_file.induct)
  case 1
  { case 1 then show ?case by simp }
  { case 2 then show ?case by simp }
next
  case (2 n es)
  { case 1 with 2 show ?case by (auto simp: image_iff) }
  { case 2 with "2.IH" show ?case by auto }
next
  case (3 n c' es)
  { case 1 then show ?case by (auto simp: payloads_filter_absent) }
  { case 2 then show ?case by auto }
qed


lemma first_file_stored:
  "first_file es = Some (name, c) \<Longrightarrow> stored_files e es \<Longrightarrow> stored_name e name c"
  by (induction es rule: first_file.induct) auto

lemma first_file_exists:
  "payloads es \<noteq> [] \<Longrightarrow> \<exists>name c. first_file es = Some (name, c)"
  by (induction es rule: first_file.induct) auto

lemma distinct_map_insort:
  "distinct (map fst (insort_key fst a xs)) \<longleftrightarrow>
     fst a \<notin> fst ` set xs \<and> distinct (map fst xs)"
  by (induction xs) (auto simp: set_insort_key)

lemma drain_all:
  assumes "root e = RootOk"
    and "\<forall>n. \<not> lock_fails e n \<and> \<not> read_fails e n \<and> \<not> remove_fails e n"
    and "held (disk f) = []"
    and "distinct (map fst (entries (disk f)))"
    and "stored_files e (entries (disk f))"
    and "length (payloads (entries (disk f))) = k"
    and "queued (wait f) = int k"
  shows "\<exists>f'. drain e k f = (payloads (entries (disk f)), f') \<and>
           payloads (entries (disk f')) = [] \<and> queued (wait f') = 0"
  using assms(3-)
proof (induction k arbitrary: f)
  case 0
  then show ?case by simp
next
  case (Suc k)
  let ?es = "entries (disk f)"
  from Suc.prems(4) have "payloads ?es \<noteq> []" by auto
  then obtain name c where ff: "first_file ?es = Some (name, c)"
    using first_file_exists by blast
  note sp = first_file_split[OF ff Suc.prems(2)]
  have sn: "stored_name e name c" by (rule first_file_stored[OF ff Suc.prems(3)])
  let ?d = "\<lparr>data = c, file_path = name, lock = \<lparr>lpath = name, fid = next_flock (disk f)\<rparr>\<rparr>"
  let ?fs1 = "(disk f)\<lparr>lock_files := List.insert name (lock_files (disk f)),
         held := (name, next_flock (disk f)) # held (disk f),
         next_flock := Suc (next_flock (disk f))\<rparr>"
  have nh: "name \<notin> fst ` set (held (disk f))" using Suc.prems(1) by simp
  from assms(2) have lf: "\<not> lock_fails e name" and rf: "\<not> read_fails e name"
    and mf: "\<not> remove_fails e name" by auto
  have g: "Get e f = (GetData ?d, f\<lparr>disk := ?fs1\<rparr>)"
    using walkDir_first[OF ff lf rf nh sn] assms(1) by (simp add: Get_def)
  let ?f2 = "snd (Remove e ?d (f\<lparr>disk := ?fs1\<rparr>))"
  have r: "entries (disk ?f2) = filter (\<lambda>(n, x). n \<noteq> name) ?es"
    "held (disk ?f2) = []" "queued (wait ?f2) = int k"
    using mf sp(2) Suc.prems(1,5) by (auto simp: Remove_def Let_def Unlock_def)
  have d2: "distinct (map fst (entries (disk ?f2)))"
    using Suc.prems(2) r(1) by (simp add: distinct_map_filter)
  have s2: "stored_files e (entries (disk ?f2))"
    using Suc.prems(3) r(1) by (simp add: stored_files_filter)
  have l2: "length (payloads (entries (disk ?f2))) = k"
    using Suc.prems(4) sp(1) r(1) by simp
  from Suc.IH[OF r(2) d2 s2 l2 r(3)]
  obtain f' where dr: "drain e k ?f2 = (payloads (entries (disk ?f2)), f')"
    and fin: "payloads (entries (disk f')) = []" "queued (wait f') = 0" by blast
  have "drain e (Suc k) f = (payloads ?es, f')"
    using g dr sp(1) r(1) by (simp add: Bytes_def)
  with fin show ?case by blast
qed

section \<open>More worked examples\<close>


lemma stored_hi: "stored_name quiet_env hi_name ''hi''"
  by (simp add: stored_name_iff quiet_env_sel hextable_def hi_name_def time_format_def)

lemma stored_yo: "stored_name quiet_env yo_name ''yo''"
  by (simp add: stored_name_iff quiet_env_sel hextable_def yo_name_def time_format_def)

lemma Get_one_item: "Get quiet_env one_item = (GetData hi_data, claimed)"
  by (simp add: Get_def quiet_env_sel one_item_def walk_def TryLock_def claimed_def hi_data_def
      hextable_def hi_name_def time_format_def)

lemma Wait_one_item: "Wait [] one_item = Some (None, one_item)"
  by (simp add: Wait_def one_item_def)

section \<open>Store: the notifier changes on success only\<close>

text \<open>
  C10. Whenever \<^verbatim>\<open>Store\<close> returns an error, the notifier is left as it was: the pending
  count is unchanged and no signal was issued. When it returns success, the pending count
  has grown by one and exactly one \<^verbatim>\<open>Signal()\<close> was issued. The only errors it returns
  are \<^verbatim>\<open>ErrDuplicatedStore\<close>, \<^verbatim>\<open>ErrStoreLockFailed\<close> and \<^verbatim>\<open>ErrStoreFailed\<close>.
\<close>

theorem Store_error_atomicity:
  assumes "Store e now content f = (r, f')"
  shows "(r \<noteq> None \<longrightarrow> wait f' = wait f) \<and>
         (r = None \<longrightarrow>
            wait f' = (wait f)\<lparr>queued := queued (wait f) + 1,
                                signals := Suc (signals (wait f))\<rparr>) \<and>
         r \<in> {None, Some ErrDuplicatedStore, Some ErrStoreLockFailed, Some ErrStoreFailed}"
  using assms
  by (auto simp: Store_def Let_def Signal_def
           split: prod.splits trylock.splits if_splits bool.splits)

theorem Store_error_atomicity_witness:
  "Store quiet_env stamp ''hi'' fresh = (None, one_item) \<and>
   wait one_item = (wait fresh)\<lparr>queued := queued (wait fresh) + 1,
                                 signals := Suc (signals (wait fresh))\<rparr>"
  using Store_error_atomicity [OF Store_fresh] Store_fresh by simp

section \<open>Round trip\<close>

text \<open>
  C1. On a store whose directory holds no other item, a successful \<^verbatim>\<open>Store(msg)\<close>
  followed by \<^verbatim>\<open>Get()\<close> returns a handle whose \<^verbatim>\<open>Bytes()\<close> are \<open>msg\<close>, and the
  item is still stored afterwards: \<^verbatim>\<open>Get\<close> changes neither the directory nor the
  notifier. The timestamp is as wide as the layout, and the platform lets \<^verbatim>\<open>Get\<close>
  list the directory, lock the file and read it.
\<close>

theorem Store_Get_round_trip:
  assumes "length now = length time_format"
    and "payloads (entries (disk f)) = []"
    and "Store e now msg f = (None, f1)"
    and "Sum256 e' = Sum256 e" and "root e' = RootOk"
    and "\<not> lock_fails e' (store_filename e now msg)"
    and "\<not> read_fails e' (store_filename e now msg)"
  shows "\<exists>d f2. Get e' f1 = (GetData d, f2) \<and> Bytes d = msg \<and>
           file_path d = store_filename e now msg \<and>
           entries (disk f2) = entries (disk f1) \<and>
           (store_filename e now msg, RegFile msg) \<in> set (entries (disk f2)) \<and>
           wait f2 = wait f1"
proof -
  let ?name = "store_filename e now msg"
  note st = Store_success_effect[OF assms(3)]
  have ff: "first_file (entries (disk f1)) = Some (?name, msg)"
    using st(3) assms(2) by (simp add: first_file_insort)
  have nh: "?name \<notin> fst ` set (held (disk f1))" using st(1,4) by simp
  have w: "walkDir e' (entries (disk f1)) (disk f1) =
     (None, Some \<lparr>data = msg, file_path = ?name, lock = \<lparr>lpath = ?name, fid = next_flock (disk f1)\<rparr>\<rparr>,
      (disk f1)\<lparr>lock_files := List.insert ?name (lock_files (disk f1)),
         held := (?name, next_flock (disk f1)) # held (disk f1),
         next_flock := Suc (next_flock (disk f1))\<rparr>)"
    by (rule walkDir_first[OF ff assms(6,7) nh stored_name_filename[OF assms(1,4)]])
  have mem: "(?name, RegFile msg) \<in> set (entries (disk f1))"
    using st(3) by (simp add: set_insort_key)
  show ?thesis using w mem assms(5)
    by (simp add: Get_def Bytes_def)
qed

theorem Store_Get_round_trip_witness:
  "length stamp = length time_format \<and> payloads (entries (disk fresh)) = [] \<and>
   Store quiet_env stamp ''hi'' fresh = (None, one_item) \<and> root quiet_env = RootOk \<and>
   \<not> lock_fails quiet_env hi_name \<and> \<not> read_fails quiet_env hi_name \<and>
   (\<exists>d f2. Get quiet_env one_item = (GetData d, f2) \<and> Bytes d = ''hi'' \<and>
      file_path d = hi_name \<and> entries (disk f2) = entries (disk one_item) \<and>
      (hi_name, RegFile ''hi'') \<in> set (entries (disk f2)) \<and> wait f2 = wait one_item)"
proof -
  have a: "length stamp = length time_format" by (simp add: stamp_def time_format_def)
  have b: "payloads (entries (disk fresh)) = []" by (simp add: fresh_def)
  have c: "\<not> lock_fails quiet_env (store_filename quiet_env stamp ''hi'')"
    "\<not> read_fails quiet_env (store_filename quiet_env stamp ''hi'')"
    by (simp_all add: quiet_env_sel)
  from Store_Get_round_trip[OF a b Store_fresh refl quiet_env_sel(10) c]
  show ?thesis using a b Store_fresh by (simp add: hi_filename quiet_env_sel)
qed

section \<open>Duplicate suppression\<close>

text \<open>
  C2. Two \<^verbatim>\<open>Store\<close> calls with the same bytes and the same timestamp build the same
  file name, and the second returns \<^verbatim>\<open>ErrDuplicatedStore\<close>, both while the first
  still holds its lock and once the first has written the file and returned; the pending
  count is then the count before the first call plus one, and the directory holds
  the same payloads. The second call's lock attempt does not fail with an error.
\<close>

theorem Store_duplicate_suppression:
  assumes "Sum256 e2 = Sum256 e"
    and "\<not> lock_fails e2 (store_filename e now content)"
  shows "store_filename e2 now content = store_filename e now content \<and>
     (\<forall>l fs1. TryLock e (store_filename e now content) (disk f) = (Locked l, fs1) \<longrightarrow>
        fst (Store e2 now content (f\<lparr>disk := fs1\<rparr>)) = Some ErrDuplicatedStore \<and>
        wait (snd (Store e2 now content (f\<lparr>disk := fs1\<rparr>))) = wait f) \<and>
     (\<forall>f1. Store e now content f = (None, f1) \<longrightarrow>
        fst (Store e2 now content f1) = Some ErrDuplicatedStore \<and>
        queued (wait (snd (Store e2 now content f1))) = queued (wait f) + 1 \<and>
        payloads (entries (disk (snd (Store e2 now content f1)))) = payloads (entries (disk f1)))"
proof -
  have n: "store_filename e2 now content = store_filename e now content"
    using assms(1) by (simp add: store_filename_def)
  have a: "\<forall>l fs1. TryLock e (store_filename e now content) (disk f) = (Locked l, fs1) \<longrightarrow>
        fst (Store e2 now content (f\<lparr>disk := fs1\<rparr>)) = Some ErrDuplicatedStore \<and>
        wait (snd (Store e2 now content (f\<lparr>disk := fs1\<rparr>))) = wait f"
  proof (intro allI impI)
    fix l fs1 assume t: "TryLock e (store_filename e now content) (disk f) = (Locked l, fs1)"
    have h: "store_filename e2 now content \<in> fst ` set (held (disk (f\<lparr>disk := fs1\<rparr>)))"
      using TryLock_Locked[OF t] n by simp
    show "fst (Store e2 now content (f\<lparr>disk := fs1\<rparr>)) = Some ErrDuplicatedStore \<and>
        wait (snd (Store e2 now content (f\<lparr>disk := fs1\<rparr>))) = wait f"
      using Store_held_name(1,2)[OF refl h] assms(2) n by simp
  qed
  have b: "\<forall>f1. Store e now content f = (None, f1) \<longrightarrow>
        fst (Store e2 now content f1) = Some ErrDuplicatedStore \<and>
        queued (wait (snd (Store e2 now content f1))) = queued (wait f) + 1 \<and>
        payloads (entries (disk (snd (Store e2 now content f1)))) = payloads (entries (disk f1))"
  proof (intro allI impI)
    fix f1 assume s: "Store e now content f = (None, f1)"
    note st = Store_success_effect[OF s]
    have x: "store_filename e2 now content \<in> fst ` set (entries (disk f1))"
      using st(3) n by (simp add: set_insort_key)
    show "fst (Store e2 now content f1) = Some ErrDuplicatedStore \<and>
        queued (wait (snd (Store e2 now content f1))) = queued (wait f) + 1 \<and>
        payloads (entries (disk (snd (Store e2 now content f1)))) = payloads (entries (disk f1))"
      using Store_existing_file[OF refl x] assms(2) n st(5) by simp
  qed
  from n a b show ?thesis by blast
qed

theorem Store_duplicate_suppression_witness:
  "\<not> lock_fails quiet_env (store_filename quiet_env stamp ''hi'') \<and>
   TryLock quiet_env hi_name (disk fresh) = (Locked \<lparr>lpath = hi_name, fid = 0\<rparr>, writing) \<and>
   fst (Store quiet_env stamp ''hi'' (fresh\<lparr>disk := writing\<rparr>)) = Some ErrDuplicatedStore \<and>
   Store quiet_env stamp ''hi'' fresh = (None, one_item) \<and>
   fst (Store quiet_env stamp ''hi'' one_item) = Some ErrDuplicatedStore \<and>
   queued (wait (snd (Store quiet_env stamp ''hi'' one_item))) = 1"
proof -
  have c: "\<not> lock_fails quiet_env (store_filename quiet_env stamp ''hi'')"
    by (simp add: quiet_env_sel)
  have q: "queued (wait fresh) = 0" by (simp add: fresh_def)
  from Store_duplicate_suppression[OF refl c, of fresh] TryLock_fresh Store_fresh c q
  show ?thesis by (simp add: hi_filename)
qed

section \<open>What Wait returns\<close>

text \<open>
  \<^verbatim>\<open>Wait\<close> returns \<^verbatim>\<open>nil\<close> only with a positive count on a running store, and
  \<^verbatim>\<open>ErrStoreClosed\<close> only on a closed store. With \<open>forceWake\<close> clear it returns
  \<^verbatim>\<open>ErrStoreClosed\<close> on a closed store and \<^verbatim>\<open>nil\<close> on a running store with a positive
  count. A round of the timer sets the flag only when the count is 0.
\<close>

lemma Wait_loop_Some:
  "Wait_loop n ws = Some n' \<Longrightarrow> \<not> (queued n' = 0 \<and> run n' \<and> \<not> forceWake n')"
  by (induction n ws rule: Wait_loop.induct) (auto split: if_splits)

lemma Wait_result:
  assumes "Wait ws f = Some (r, f')"
  shows "r = None \<or> r = Some ErrTimedOut \<or> r = Some ErrStoreClosed"
    and "r = None \<Longrightarrow> queued (wait f') \<noteq> 0 \<and> run (wait f')"
    and "r = Some ErrStoreClosed \<Longrightarrow> \<not> run (wait f')"
  using assms Wait_loop_Some[of "wait f" ws]
  by (auto simp: Wait_def split: option.splits if_splits)

lemma Wait_closed_no_wake:
  "\<not> run (wait f) \<Longrightarrow> \<not> forceWake (wait f) \<Longrightarrow>
     Wait ws f = Some (Some ErrStoreClosed, f)"
  by (cases ws) (simp_all add: Wait_def)

lemma Wait_pending_no_wake:
  "queued (wait f) \<noteq> 0 \<Longrightarrow> \<not> forceWake (wait f) \<Longrightarrow> run (wait f) \<Longrightarrow>
     Wait ws f = Some (None, f)"
  by (cases ws) (simp_all add: Wait_def)

lemma timer_fired_wake:
  "timer_fired n = Some n' \<Longrightarrow> forceWake n' \<longleftrightarrow> forceWake n \<or> queued n = 0"
  by (auto simp: timer_fired_def Signal_def split: if_splits)

section \<open>Wait on a closed store\<close>

text \<open>
  C5. After \<^verbatim>\<open>Close()\<close> every \<^verbatim>\<open>Wait()\<close> is to return \<^verbatim>\<open>ErrStoreClosed\<close>. The
  code does otherwise when a forced wake is pending: \<^verbatim>\<open>NewFS\<close> on an empty directory
  with a timeout, the timer fires while no goroutine waits, \<^verbatim>\<open>Close()\<close>; the next
  \<^verbatim>\<open>Wait()\<close> returns \<^verbatim>\<open>ErrTimedOut\<close> although \<open>run\<close> is false.
\<close>

theorem Wait_after_Close_TimedOut:
  "NewFS quiet_env 1 empty_dir = Some fresh \<and>
   timer_fired (wait fresh) = Some ticked \<and>
   \<not> run (wait (snd (Close (fresh\<lparr>wait := ticked\<rparr>)))) \<and>
   map_option fst (Wait [] (snd (Close (fresh\<lparr>wait := ticked\<rparr>)))) = Some (Some ErrTimedOut)"
  by (simp add: NewFS_fresh timer_fired_fresh Wait_def Close_def Close_notifier_def
        Signal_def ticked_def)

section \<open>Wait with an item pending\<close>

text \<open>
  C6. With a positive pending count on an open store, \<^verbatim>\<open>Wait()\<close> is to return
  \<^verbatim>\<open>nil\<close>. The code does otherwise when a forced wake is pending: \<^verbatim>\<open>NewFS\<close> on an
  empty directory with a timeout, the timer fires while no goroutine waits, a
  \<^verbatim>\<open>Store\<close> succeeds; the next \<^verbatim>\<open>Wait()\<close> returns \<^verbatim>\<open>ErrTimedOut\<close> although the
  pending count is 1 and the store runs.
\<close>

theorem Wait_pending_TimedOut:
  "NewFS quiet_env 1 empty_dir = Some fresh \<and>
   timer_fired (wait fresh) = Some ticked \<and>
   fst (Store quiet_env stamp ''hi'' (fresh\<lparr>wait := ticked\<rparr>)) = None \<and>
   queued (wait (snd (Store quiet_env stamp ''hi'' (fresh\<lparr>wait := ticked\<rparr>)))) = 1 \<and>
   run (wait (snd (Store quiet_env stamp ''hi'' (fresh\<lparr>wait := ticked\<rparr>)))) \<and>
   map_option fst (Wait [] (snd (Store quiet_env stamp ''hi'' (fresh\<lparr>wait := ticked\<rparr>))))
     = Some (Some ErrTimedOut)"
  by (simp add: NewFS_fresh timer_fired_fresh Wait_def Store_def Let_def hi_filename
        TryLock_def fresh_def quiet_env_sel stat_not_exist_def WriteFile_def put_file_def
        Unlock_def Signal_def hi_name_def ticked_def timer_fired_def)

section \<open>Count\<close>

text \<open>
  C8. For every store state, \<^verbatim>\<open>Count()\<close> returns the current pending count, and
  reading it leaves the store as it was. On the steps of \<^verbatim>\<open>TestLocalFS\<close> it returns
  what the test expects: 0 on the new store, 1 after a \<^verbatim>\<open>Store\<close>, still 1 after the
  same \<^verbatim>\<open>Store\<close> again and after a \<^verbatim>\<open>Get\<close>.
\<close>

theorem Count_pending:
  "fst (Count f) = queued (wait f) \<and> snd (Count f) = f \<and>
   fst (Count fresh) = 0 \<and>
   fst (Count (snd (Store quiet_env stamp ''hi'' fresh))) = 1 \<and>
   fst (Count (snd (Store quiet_env stamp ''hi'' (snd (Store quiet_env stamp ''hi'' fresh))))) = 1 \<and>
   fst (Count (snd (Get quiet_env one_item))) = 1"
proof -
  have "wait (snd (Store quiet_env stamp ''hi'' one_item)) = wait one_item"
    by (rule Store_existing_file(2)[OF refl])
       (simp_all add: hi_filename one_item_def quiet_env_sel)
  moreover have "wait (snd (Get quiet_env one_item)) = wait one_item"
    by (simp add: Get_one_item claimed_def)
  ultimately show ?thesis
    by (simp add: Count_def Store_fresh) (simp add: fresh_def one_item_def)
qed

section \<open>The errors of Get\<close>

text \<open>
  C9. When the lock attempt on a candidate file fails with an error, \<^verbatim>\<open>Get\<close> is to
  return \<^verbatim>\<open>ErrGetLockFailed\<close>. The code never returns that error: \<^verbatim>\<open>walk\<close> returns
  it to \<^verbatim>\<open>WalkDir\<close>, and \<^verbatim>\<open>Get\<close> turns every error of \<^verbatim>\<open>WalkDir\<close> into
  \<^verbatim>\<open>ErrGetFailed\<close>. On the store holding one intact item, on a platform where the
  directory can be listed and every lock attempt fails, \<^verbatim>\<open>Get\<close> returns
  \<^verbatim>\<open>ErrGetFailed\<close>.
\<close>

theorem Get_lock_error_GetFailed:
  "fst (Get e f) \<noteq> GetErr ErrGetLockFailed \<and>
   root (quiet_env\<lparr>lock_fails := \<lambda>n. True\<rparr>) = RootOk \<and>
   Get (quiet_env\<lparr>lock_fails := \<lambda>n. True\<rparr>) one_item = (GetErr ErrGetFailed, one_item)"
proof -
  have "fst (Get e f) \<noteq> GetErr ErrGetLockFailed"
    by (simp add: Get_def split: root_status.splits prod.splits option.splits)
  moreover have
    "Get (quiet_env\<lparr>lock_fails := \<lambda>n. True\<rparr>) one_item = (GetErr ErrGetFailed, one_item)"
    by (simp add: Get_def one_item_def walk_def TryLock_def quiet_env_def)
  ultimately show ?thesis by (simp add: quiet_env_def)
qed

section \<open>Exclusivity\<close>




section \<open>Crash recovery\<close>

text \<open>
  C4. Over a directory whose regular files are N files as \<^verbatim>\<open>Store\<close> writes them,
  whatever locks and lock files the previous instance left, \<^verbatim>\<open>NewFS\<close> returns a store
  whose pending count is N at once, and N rounds of \<^verbatim>\<open>Get\<close> and \<^verbatim>\<open>Remove\<close> retrieve
  the N contents, each once and unchanged, leaving no payload and a count of 0. The
  platform fails no call.
\<close>

theorem NewFS_crash_recovery:
  assumes "\<not> removeall_fails e" and "\<not> mkdirall_fails e" and "root e = RootOk"
    and "\<forall>n. \<not> lock_fails e n \<and> \<not> read_fails e n \<and> \<not> remove_fails e n"
    and "distinct (map fst (entries fs))" and "stored_files e (entries fs)"
  shows "\<exists>f. NewFS e timeout fs = Some f \<and>
           queued (wait f) = int (length (payloads (entries fs))) \<and>
           payloads (entries (disk f)) = payloads (entries fs) \<and>
           (\<exists>f'. drain e (length (payloads (entries fs))) f = (payloads (entries fs), f') \<and>
                 payloads (entries (disk f')) = [] \<and> queued (wait f') = 0)"
proof -
  let ?es1 = "insort_key fst (''.lock'', SubDir) (filter (\<lambda>(n, x). n \<noteq> ''.lock'') (entries fs))"
  let ?f = "\<lparr>wait = \<lparr>timer = (if timeout \<noteq> 0 then Some Running else None),
                      queued = count_walk ?es1 0, run = True, forceWake = False, signals = 0\<rparr>,
             disk = fs\<lparr>entries := ?es1, lock_files := [], held := []\<rparr>\<rparr>"
  have n: "NewFS e timeout fs = Some ?f"
    using assms(1-3) by (simp add: NewFS_def Let_def)
  have p: "payloads ?es1 = payloads (entries fs)"
    using assms(6) by (simp add: payloads_insort_dir payloads_filter_lock)
  have q: "queued (wait ?f) = int (length (payloads (entries fs)))"
    using p by (simp add: count_walk_payloads)
  have d: "distinct (map fst ?es1)"
    using assms(5) by (auto simp: distinct_map_insort distinct_map_filter)
  have s: "stored_files e ?es1"
    using assms(6) by (simp add: stored_files_insort_dir stored_files_filter)
  have "\<exists>f'. drain e (length (payloads (entries fs))) ?f = (payloads (entries (disk ?f)), f') \<and>
           payloads (entries (disk f')) = [] \<and> queued (wait f') = 0"
    by (rule drain_all[OF assms(3,4)]) (use d s p q in simp_all)
  with n p q show ?thesis by simp
qed

theorem NewFS_crash_recovery_witness:
  "\<not> removeall_fails quiet_env \<and> \<not> mkdirall_fails quiet_env \<and> root quiet_env = RootOk \<and>
   distinct (map fst (entries crashed)) \<and> stored_files quiet_env (entries crashed) \<and>
   payloads (entries crashed) = [''hi'', ''yo''] \<and>
   (\<exists>f. NewFS quiet_env 1 crashed = Some f \<and> queued (wait f) = 2 \<and>
      (\<exists>f'. drain quiet_env 2 f = ([''hi'', ''yo''], f') \<and>
            payloads (entries (disk f')) = [] \<and> queued (wait f') = 0))"
proof -
  have a: "\<not> removeall_fails quiet_env" "\<not> mkdirall_fails quiet_env" "root quiet_env = RootOk"
    "\<forall>n. \<not> lock_fails quiet_env n \<and> \<not> read_fails quiet_env n \<and> \<not> remove_fails quiet_env n"
    by (simp_all add: quiet_env_sel)
  have d: "distinct (map fst (entries crashed))"
    by (simp add: crashed_def hi_name_def yo_name_def)
  have s: "stored_files quiet_env (entries crashed)"
    by (simp add: crashed_def stored_hi stored_yo)
  have p: "payloads (entries crashed) = [''hi'', ''yo'']" by (simp add: crashed_def)
  have l: "length (payloads (entries crashed)) = 2" by (simp add: p)
  from NewFS_crash_recovery[OF a d s, of 1]
  have "\<exists>f. NewFS quiet_env 1 crashed = Some f \<and> queued (wait f) = 2 \<and>
      (\<exists>f'. drain quiet_env 2 f = ([''hi'', ''yo''], f') \<and>
            payloads (entries (disk f')) = [] \<and> queued (wait f') = 0)"
    unfolding l unfolding p by auto
  with a d s p show ?thesis by blast
qed

section \<open>The relay loop\<close>

text \<open>
  C7. In a pass of the relay loop that retrieved an item: when \<^verbatim>\<open>Send\<close> fails, the
  pass calls \<^verbatim>\<open>Close\<close> on the handle and nothing else, so the file is still in the
  directory, its lock is free and the pending count is unchanged; when \<^verbatim>\<open>Send\<close>
  succeeds, the pass calls \<^verbatim>\<open>Remove\<close>, and if \<^verbatim>\<open>Remove\<close> fails it then calls
  \<^verbatim>\<open>Close\<close>, which frees the lock.
\<close>

theorem relay_redelivery_policy:
  assumes "Wait ws store = Some (err, s1)"
    and "err = None \<or> err = Some ErrTimedOut"
    and "Get e s1 = (GetData d, s2)"
  shows "(Send (Bytes d) \<noteq> None \<longrightarrow>
            relay_iteration e Send ws store = (LoopAgain, [CallClose], snd (fsData_Close d s2)) \<and>
            (file_path d, RegFile (data d)) \<in> set (entries (disk (snd (fsData_Close d s2)))) \<and>
            file_path d \<notin> fst ` set (held (disk (snd (fsData_Close d s2)))) \<and>
            wait (snd (fsData_Close d s2)) = wait s1) \<and>
         (Send (Bytes d) = None \<longrightarrow>
            (\<forall>s3. Remove e d s2 = (None, s3) \<longrightarrow>
               relay_iteration e Send ws store = (LoopAgain, [CallRemove], s3)) \<and>
            (\<forall>rerr s3. Remove e d s2 = (Some rerr, s3) \<longrightarrow>
               relay_iteration e Send ws store =
                 (LoopAgain, [CallRemove, CallClose], snd (fsData_Close d s3)) \<and>
               file_path d \<notin> fst ` set (held (disk (snd (fsData_Close d s3))))))"
proof -
  note g = Get_effect[OF assms(3)]
  from g(4)[OF refl] have h: "held (disk s2) = (file_path d, fid (lock d)) # held (disk s1)"
    and nh: "file_path d \<notin> fst ` set (held (disk s1))"
    and lp: "lpath (lock d) = file_path d"
    and mem: "(file_path d, RegFile (data d)) \<in> set (entries (disk s1))"
    by auto
  have rel: "held (disk (snd (fsData_Close d s2))) = held (disk s1)"
    using h nh lp by (simp add: fsData_Close_def Unlock_def filter_other_lock)
  have ent: "entries (disk (snd (fsData_Close d s2))) = entries (disk s1)"
    using g(2) by (simp add: fsData_Close_def Unlock_def)
  have wt: "wait (snd (fsData_Close d s2)) = wait s1"
    using g(1) by (simp add: fsData_Close_def)
  have fail: "\<And>rerr s3. Remove e d s2 = (Some rerr, s3) \<Longrightarrow> s3 = s2"
    by (auto simp: Remove_def Let_def split: if_splits)
  have not_closed: "err \<noteq> Some ErrStoreClosed" using assms(2) by auto
  have pass: "\<not> (err \<noteq> None \<and> err \<noteq> Some ErrTimedOut)" using assms(2) by auto
  have A: "Send (Bytes d) \<noteq> None \<Longrightarrow>
      relay_iteration e Send ws store = (LoopAgain, [CallClose], snd (fsData_Close d s2))"
    using assms(1,3) not_closed pass by (auto simp: relay_iteration_def)
  have B: "\<And>s3. Send (Bytes d) = None \<Longrightarrow> Remove e d s2 = (None, s3) \<Longrightarrow>
      relay_iteration e Send ws store = (LoopAgain, [CallRemove], s3)"
    using assms(1,3) not_closed pass by (auto simp: relay_iteration_def)
  have C: "\<And>rerr s3. Send (Bytes d) = None \<Longrightarrow> Remove e d s2 = (Some rerr, s3) \<Longrightarrow>
      relay_iteration e Send ws store = (LoopAgain, [CallRemove, CallClose], snd (fsData_Close d s3))"
    using assms(1,3) not_closed pass by (auto simp: relay_iteration_def)
  show ?thesis using A B C rel ent wt mem nh fail by auto
qed

theorem relay_redelivery_policy_witness:
  "Wait [] one_item = Some (None, one_item) \<and>
   Get quiet_env one_item = (GetData hi_data, claimed) \<and>
   relay_iteration quiet_env (\<lambda>m. Some ErrSendFailed) [] one_item = (LoopAgain, [CallClose], snd (fsData_Close hi_data claimed)) \<and>
   (hi_name, RegFile ''hi'') \<in> set (entries (disk (snd (fsData_Close hi_data claimed)))) \<and>
   hi_name \<notin> fst ` set (held (disk (snd (fsData_Close hi_data claimed)))) \<and>
   Remove quiet_env hi_data claimed = (None, snd (Remove quiet_env hi_data claimed)) \<and>
   relay_iteration quiet_env (\<lambda>m. None) [] one_item = (LoopAgain, [CallRemove], snd (Remove quiet_env hi_data claimed)) \<and>
   Remove (quiet_env\<lparr>remove_fails := \<lambda>n. True\<rparr>) hi_data
      (snd (Get (quiet_env\<lparr>remove_fails := \<lambda>n. True\<rparr>) one_item)) = (Some ErrRemoveFailed, claimed) \<and>
   relay_iteration (quiet_env\<lparr>remove_fails := \<lambda>n. True\<rparr>) (\<lambda>m. None) [] one_item =
      (LoopAgain, [CallRemove, CallClose], snd (fsData_Close hi_data claimed))"
proof -
  have r: "Remove quiet_env hi_data claimed = (None, snd (Remove quiet_env hi_data claimed))"
    by (simp add: Remove_def Let_def quiet_env_sel hi_data_def claimed_def one_item_def)
  have g2: "Get (quiet_env\<lparr>remove_fails := \<lambda>n. True\<rparr>) one_item = (GetData hi_data, claimed)"
    by (simp add: Get_def quiet_env_def one_item_def walk_def TryLock_def claimed_def hi_data_def
      hextable_def hi_name_def time_format_def)
  have r2: "Remove (quiet_env\<lparr>remove_fails := \<lambda>n. True\<rparr>) hi_data claimed = (Some ErrRemoveFailed, claimed)"
    by (simp add: Remove_def)
  from relay_redelivery_policy[OF Wait_one_item _ Get_one_item, of "\<lambda>m. Some ErrSendFailed"]
    relay_redelivery_policy[OF Wait_one_item _ Get_one_item, of "\<lambda>m. None"]
    relay_redelivery_policy[OF Wait_one_item _ g2, of "\<lambda>m. None"]
    r r2 g2 Wait_one_item Get_one_item
  show ?thesis by (simp add: hi_data_def)
qed

end
